theory Spec2Isabelle
  imports Complex_Main
begin

section \<open>The move prediction engine of Mind Unbind (MovePredictionEngine.py)\<close>

text \<open>
  The engine works on Python floats. They are idealised here as the real numbers: every
  arithmetic operation is exact, and the only failures of the arithmetic are the ones
  Python raises on exact values (division by zero, the domain errors of \<open>math.log\<close> and
  \<open>math.pow\<close>). Python's unbounded integers are \<open>int\<close> and \<open>nat\<close>. Exceptions are values of
  the type \<open>error\<close>; a function that can raise returns \<open>error + 'a\<close>.
\<close>

datatype error = IndexError | ZeroDivisionError | ValueError

text \<open>
  Class \<open>Move\<close> has the single field \<open>states\<close>, a list of floats; a Move is represented by
  that list. \<open>Move(num_states)\<close> is the list of \<open>num_states\<close> zeros. Every Move object of
  the program is created fresh (by \<open>Move(...)\<close>) and never shared between the history, the
  weight tensor and the templates, so in-place updates are modelled by list update.
\<close>

type_synonym Move = "real list"

definition new_Move :: "nat \<Rightarrow> Move" where
  "new_Move num_states = replicate num_states 0"

text \<open>Python list indexing \<open>xs[i]\<close>: negative indices count from the end.\<close>

definition list_get :: "'a list \<Rightarrow> int \<Rightarrow> error + 'a" where
  "list_get xs i =
     (if 0 \<le> i \<and> i < int (length xs) then Inr (xs ! nat i)
      else if - int (length xs) \<le> i \<and> i < 0 then Inr (xs ! nat (i + int (length xs)))
      else Inl IndexError)"

text \<open>Float division \<open>a / b\<close>, \<open>math.log\<close> on an integer, and \<open>math.pow\<close>.\<close>

definition float_div :: "real \<Rightarrow> real \<Rightarrow> error + real" where
  "float_div a b = (if b = 0 then Inl ZeroDivisionError else Inr (a / b))"

definition math_log :: "int \<Rightarrow> error + real" where
  "math_log x = (if x \<le> 0 then Inl ValueError else Inr (ln (real_of_int x)))"

definition math_pow :: "real \<Rightarrow> real \<Rightarrow> error + real" where
  "math_pow x y =
     (if y = 0 then Inr 1
      else if x = 0 then (if y < 0 then Inl ValueError else Inr 0)
      else if 0 < x then Inr (x powr y)
      else if y = real_of_int \<lfloor>y\<rfloor>
        then Inr ((if even \<lfloor>y\<rfloor> then 1 else - 1) * ((- x) powr y))
        else Inl ValueError)"

subsection \<open>BaseMoveWeights\<close>

definition StateCount :: nat where
  "StateCount = 30"

definition BaseDiffPerState :: real where
  "BaseDiffPerState = 4 / real StateCount"

definition CircularRange :: real where
  "CircularRange = 360"

definition get_index_at_offset :: "int \<Rightarrow> int \<Rightarrow> int" where
  "get_index_at_offset t offset =
     (let x = t + offset in x - int StateCount * (x div int StateCount))"

text \<open>
  \<open>initialize\<close>: the body of the loop over \<open>j\<close> writes the weight at the offsets \<open>+j\<close> and
  \<open>-j\<close> from \<open>t\<close>; \<open>init_move t\<close> is the Move built for template \<open>t\<close>, and \<open>MoveWeights\<close>
  collects the templates in the order they are appended.
\<close>

definition init_step :: "int \<Rightarrow> nat \<Rightarrow> Move \<Rightarrow> Move" where
  "init_step t j states =
     (let weight = 1 - BaseDiffPerState * real j
      in (states[nat (get_index_at_offset t (int j)) := weight])
                [nat (get_index_at_offset t (- int j)) := weight])"

definition init_move :: "int \<Rightarrow> Move" where
  "init_move t = fold (init_step t) [0 ..< StateCount div 2 + 1] (new_Move StateCount)"

definition MoveWeights :: "Move list" where
  "MoveWeights = map (\<lambda>t. init_move (int t)) [0 ..< StateCount]"

definition SumMoveWeights :: real where
  "SumMoveWeights = fold (\<lambda>j s. s + \<bar>MoveWeights ! 0 ! j\<bar>) [0 ..< StateCount] 0"

subsection \<open>MovePredictionEngine\<close>

record engine =
  history_depth :: int
  history :: "Move list"
  weights :: "Move list list"
  scoreScaler :: real
  ScoreScalerMiddle :: real

definition MovePredictionEngine_init :: "int \<Rightarrow> error + engine" where
  "MovePredictionEngine_init history_depth_count =
     (case math_log history_depth_count of Inl e \<Rightarrow> Inl e | Inr l \<Rightarrow>
     (case float_div 1 l of Inl e \<Rightarrow> Inl e | Inr sc \<Rightarrow>
     (case math_pow (real_of_int history_depth_count / 2) sc of Inl e \<Rightarrow> Inl e | Inr mid \<Rightarrow>
        Inr \<lparr>history_depth = history_depth_count,
             history = [],
             weights = replicate (nat history_depth_count)
                         (replicate StateCount (new_Move StateCount)),
             scoreScaler = sc,
             ScoreScalerMiddle = mid\<rparr>)))"

definition get_target_state_and_weights :: "real \<Rightarrow> int \<times> real \<times> real" where
  "get_target_state_and_weights degrees0 =
     (let degrees = (if degrees0 = CircularRange then 0 else degrees0);
          t = \<lfloor>real StateCount * (degrees / CircularRange)\<rfloor>;
          t1_weight = 1 - ((real_of_int (t + 1) / real StateCount) - (degrees / CircularRange));
          t2_weight = 1 - t1_weight
      in (t, t1_weight, t2_weight))"

definition get_move_step :: "int \<Rightarrow> real \<Rightarrow> real \<Rightarrow> Move \<Rightarrow> nat \<Rightarrow> Move \<Rightarrow> Move" where
  "get_move_step t t1_weight t2_weight base_move j move =
     move[nat (get_index_at_offset t (int j)) :=
            (base_move ! nat (get_index_at_offset t (int j)) * t1_weight)
          + (base_move ! nat (get_index_at_offset t (int j - 1)) * t2_weight)]"

definition get_move :: "real \<Rightarrow> error + Move" where
  "get_move degrees =
     (case get_target_state_and_weights degrees of (t, t1_weight, t2_weight) \<Rightarrow>
     (case list_get MoveWeights t of Inl e \<Rightarrow> Inl e | Inr base_move \<Rightarrow>
        Inr (fold (get_move_step t t1_weight t2_weight base_move)
               [1 ..< StateCount + 1] (new_Move StateCount))))"

text \<open>
  The core loop of \<open>record_move_and_get_predicted\<close>, innermost body first. The loops
  index lists of the engine by \<open>range(len(self.history))\<close> and \<open>range(StateCount)\<close>; the
  engine keeps \<open>len(history) \<le> len(weights)\<close> and every Move at \<open>StateCount\<close> states
  (predicate \<open>wf_engine\<close> below), so these reads are in range.
\<close>

definition core_body :: "Move \<Rightarrow> real \<Rightarrow> nat \<Rightarrow> real \<times> Move \<Rightarrow> real \<times> Move" where
  "core_body hist_move move_state_i j =
     (\<lambda>(pred_i, move_weights_i).
        (pred_i + hist_move ! j * move_weights_i ! j,
         move_weights_i[j := move_weights_i ! j + (move_state_i * hist_move ! j)]))"

definition core_loop_i :: "Move \<Rightarrow> Move \<Rightarrow> nat \<Rightarrow> Move \<times> Move list \<Rightarrow> Move \<times> Move list" where
  "core_loop_i hist_move move i =
     (\<lambda>(pred, move_weights).
        case fold (core_body hist_move (move ! i)) [0 ..< StateCount]
               (pred ! i, move_weights ! i) of
          (pred_i, move_weights_i) \<Rightarrow> (pred[i := pred_i], move_weights[i := move_weights_i]))"

definition core_loop_d :: "Move list \<Rightarrow> Move \<Rightarrow> nat \<Rightarrow> Move \<times> Move list list \<Rightarrow> Move \<times> Move list list" where
  "core_loop_d hist move d =
     (\<lambda>(pred, ws).
        case fold (core_loop_i (hist ! d) move) [0 ..< StateCount] (pred, ws ! d) of
          (pred', move_weights) \<Rightarrow> (pred', ws[d := move_weights]))"

definition core_loop :: "Move list \<Rightarrow> Move \<Rightarrow> Move list list \<Rightarrow> Move \<times> Move list list" where
  "core_loop hist move ws =
     fold (core_loop_d hist move) [0 ..< length hist] (new_Move StateCount, ws)"

definition record_move_and_get_predicted :: "real \<Rightarrow> engine \<Rightarrow> error + (Move \<times> engine)" where
  "record_move_and_get_predicted degrees self =
     (case get_move degrees of Inl e \<Rightarrow> Inl e | Inr move \<Rightarrow>
     (case core_loop (history self) move (weights self) of (pred, ws) \<Rightarrow>
        let h = move # history self;
            h' = (if int (length h) > history_depth self then butlast h else h)
        in Inr (pred, self\<lparr>history := h', weights := ws\<rparr>)))"

text \<open>
  \<open>max(xs)\<close> and \<open>min(xs)\<close> of a non-empty list (they are only called when the sum of
  absolute values is positive, so the list is not empty).
\<close>

definition list_max :: "real list \<Rightarrow> real" where
  "list_max xs = fold max (tl xs) (hd xs)"

definition list_min :: "real list \<Rightarrow> real" where
  "list_min xs = fold min (tl xs) (hd xs)"

text \<open>
  \<open>get_scoring_weight\<close> is a method of the engine; the model returns the engine next to
  the result, so that what the call does to the engine is part of its value. The result
  is the triple \<open>(-score, pos_add, neg_add)\<close>.
\<close>

definition get_scoring_weight ::
    "real \<Rightarrow> Move \<Rightarrow> engine \<Rightarrow> (error + real \<times> real \<times> real) \<times> engine" where
  "get_scoring_weight degrees predicted self =
     (case get_target_state_and_weights degrees of (t, t1_weight, t2_weight) \<Rightarrow>
      let sum_states = sum_list (map abs predicted) in
      if sum_states > 0 then
        (case list_get predicted t of Inl e \<Rightarrow> (Inl e, self) | Inr p_t \<Rightarrow>
        (case list_get predicted (get_index_at_offset t 1) of Inl e \<Rightarrow> (Inl e, self) | Inr p_t1 \<Rightarrow>
           let score = (((p_t * t1_weight) + (p_t1 * t2_weight)) / sum_states) * SumMoveWeights;
               max_state = list_max predicted;
               min_state = list_min predicted;
               max_abs = max max_state \<bar>min_state\<bar>;
               score_range_normalizer = (max_abs / sum_states) * SumMoveWeights;
               neg_add = score_range_normalizer + score;
               pos_add = score_range_normalizer - score
           in (case math_pow (real (length (history self))) (scoreScaler self) of
                 Inl e \<Rightarrow> (Inl e, self)
               | Inr scaler \<Rightarrow>
                   (case float_div scaler (ScoreScalerMiddle self) of
                      Inl e \<Rightarrow> (Inl e, self)
                    | Inr q \<Rightarrow>
                       (Inr (- (score * q), pos_add * scaler, neg_add * scaler), self)))))
      else (Inr (- 0, 0, 0), self))"

text \<open>\<open>test_score_move_series\<close>: the loop over the angles, then the final formula.\<close>

fun score_loop :: "real list \<Rightarrow> engine \<times> real \<times> real \<Rightarrow> error + (engine \<times> real \<times> real)" where
  "score_loop [] acc = Inr acc"
| "score_loop (degree # rest) (eng, pos_sum, neg_sum) =
     (case record_move_and_get_predicted degree eng of
        Inl e \<Rightarrow> Inl e
      | Inr (predicted, eng1) \<Rightarrow>
          (case get_scoring_weight degree predicted eng1 of
             (Inl e, eng2) \<Rightarrow> Inl e
           | (Inr (score, add, neg), eng2) \<Rightarrow>
               score_loop rest (eng2, pos_sum + add, neg_sum + neg)))"

definition final_score :: "real \<Rightarrow> real \<Rightarrow> error + real" where
  "final_score pos_sum neg_sum =
     (case (if pos_sum < neg_sum then float_div pos_sum neg_sum
            else (case float_div neg_sum pos_sum of Inl e \<Rightarrow> Inl e | Inr q \<Rightarrow> Inr (2 - q))) of
        Inl e \<Rightarrow> Inl e
      | Inr final \<Rightarrow> Inr (final * 100))"

definition test_score_move_series :: "real list \<Rightarrow> error + real" where
  "test_score_move_series degrees =
     (case MovePredictionEngine_init (int (length degrees)) of
        Inl e \<Rightarrow> Inl e
      | Inr engine \<Rightarrow>
          (case score_loop degrees (engine, 0, 0) of
             Inl e \<Rightarrow> Inl e
           | Inr (eng, pos_sum, neg_sum) \<Rightarrow> final_score pos_sum neg_sum))"

subsection \<open>Rounds, and the engine's representation invariant\<close>

text \<open>
  A round feeds its angles in order to \<open>record_move_and_get_predicted\<close> on an engine
  built for it, as the loop of \<open>test_score_move_series\<close> does; \<open>record_moves\<close> collects
  the predicted Moves, and \<open>tensor_cell\<close> reads one cell of the final weight tensor.
\<close>

fun record_moves :: "real list \<Rightarrow> engine \<Rightarrow> error + (Move list \<times> engine)" where
  "record_moves [] self = Inr ([], self)"
| "record_moves (degree # rest) self =
     (case record_move_and_get_predicted degree self of
        Inl e \<Rightarrow> Inl e
      | Inr (pred, self1) \<Rightarrow>
          (case record_moves rest self1 of
             Inl e \<Rightarrow> Inl e
           | Inr (preds, self2) \<Rightarrow> Inr (pred # preds, self2)))"

definition play_round :: "int \<Rightarrow> real list \<Rightarrow> error + (Move list \<times> engine)" where
  "play_round history_depth_count degrees =
     (case MovePredictionEngine_init history_depth_count of
        Inl e \<Rightarrow> Inl e
      | Inr engine \<Rightarrow> record_moves degrees engine)"

definition tensor_cell ::
    "nat \<Rightarrow> nat \<Rightarrow> nat \<Rightarrow> error + (Move list \<times> engine) \<Rightarrow> error + real" where
  "tensor_cell d i j r = map_sum id (\<lambda>(preds, self). weights self ! d ! i ! j) r"

text \<open>
  What \<open>__init__\<close> establishes and every call keeps: the tensor has \<open>history_depth\<close>
  lags of \<open>StateCount \<times> StateCount\<close> cells, the history is no longer than the tensor,
  and every Move of the history has \<open>StateCount\<close> states.
\<close>

definition wf_engine :: "engine \<Rightarrow> bool" where
  "wf_engine self \<longleftrightarrow>
     history_depth self = int (length (weights self)) \<and>
     length (history self) \<le> length (weights self) \<and>
     list_all (\<lambda>h. length h = StateCount) (history self) \<and>
     list_all (\<lambda>m. length m = StateCount \<and> list_all (\<lambda>r. length r = StateCount) m)
       (weights self)"

subsection \<open>The specification's formulas\<close>

text \<open>
  The circular distance between two bins, and the two sequential passes the
  specification compares the core loop with: the prediction computed from the tensor as
  it is at call entry, then the update of every cell at a lag that has a history entry.
\<close>

definition circular_distance :: "nat \<Rightarrow> nat \<Rightarrow> nat" where
  "circular_distance t k =
     min (nat ((int k - int t) mod int StateCount)) (nat ((int t - int k) mod int StateCount))"

definition predict_pass :: "Move list \<Rightarrow> Move list list \<Rightarrow> Move" where
  "predict_pass hist ws =
     map (\<lambda>i. sum_list (map (\<lambda>d. sum_list (map (\<lambda>j. hist ! d ! j * ws ! d ! i ! j)
                                              [0 ..< StateCount]))
                         [0 ..< length hist]))
         [0 ..< StateCount]"

definition update_pass :: "Move list \<Rightarrow> Move \<Rightarrow> Move list list \<Rightarrow> Move list list" where
  "update_pass hist vector ws =
     map (\<lambda>d. if d < length hist
              then map (\<lambda>i. map (\<lambda>j. ws ! d ! i ! j + vector ! i * hist ! d ! j)
                                [0 ..< StateCount])
                       [0 ..< StateCount]
              else ws ! d)
         [0 ..< length ws]"

definition next_history :: "engine \<Rightarrow> Move \<Rightarrow> Move list" where
  "next_history self vector =
     (if history_depth self < int (length (vector # history self))
      then butlast (vector # history self) else vector # history self)"

text \<open>The bin an angle falls into: the first component of \<open>get_target_state_and_weights\<close>.\<close>

definition target_state :: "real \<Rightarrow> int" where
  "target_state degrees = fst (get_target_state_and_weights degrees)"

section \<open>Circular indexing and the templates\<close>

lemma get_index_at_offset_mod: "get_index_at_offset t k = (t + k) mod int StateCount"
  by (simp add: get_index_at_offset_def Let_def minus_mult_div_eq_mod)

lemma get_index_at_offset_range:
  "0 \<le> get_index_at_offset t k" "get_index_at_offset t k < int StateCount"
  by (simp_all add: get_index_at_offset_mod StateCount_def)

lemma MoveWeights_closed:
  "MoveWeights = map (\<lambda>t. map (\<lambda>k. 1 - BaseDiffPerState * real (circular_distance t k))
      [0 ..< StateCount]) [0 ..< StateCount]"
  by code_simp

lemma length_MoveWeights: "length MoveWeights = StateCount"
  by (simp add: MoveWeights_closed)

lemma length_MoveWeights_nth: "t < StateCount \<Longrightarrow> length (MoveWeights ! t) = StateCount"
  by (simp add: MoveWeights_closed)

lemma MoveWeights_nth:
  "t < StateCount \<Longrightarrow> k < StateCount \<Longrightarrow>
   MoveWeights ! t ! k = 1 - BaseDiffPerState * real (circular_distance t k)"
  by (simp add: MoveWeights_closed)

lemma circular_distance_offsets:
  "circular_distance t (nat (get_index_at_offset (int t) j)) =
   circular_distance t (nat (get_index_at_offset (int t) (- j)))"
  by (simp add: circular_distance_def get_index_at_offset_mod mod_simps min.commute
      StateCount_def)

lemma circular_distance_le: "circular_distance t k \<le> StateCount div 2"
proof -
  define a where "a = (int k - int t) mod 30"
  define b where "b = (int t - int k) mod 30"
  have ab: "0 \<le> a" "a < 30" "0 \<le> b" "b < 30" by (simp_all add: a_def b_def)
  have "(a + b) mod 30 = 0" unfolding a_def b_def by (simp add: mod_simps)
  then have "a + b = 0 \<or> a + b = 30" using ab by presburger
  then have "min (nat a) (nat b) \<le> 15" using ab by auto
  then show ?thesis by (simp add: circular_distance_def StateCount_def a_def b_def)
qed

lemma circular_distance_antipode:
  "circular_distance t (nat (get_index_at_offset (int t) (int (StateCount div 2))))
     = StateCount div 2"
  by (simp add: circular_distance_def get_index_at_offset_mod mod_simps StateCount_def)

lemma circular_distance_sums:
  "map (\<lambda>t. sum_list (map (circular_distance t) [0 ..< StateCount])) [0 ..< StateCount]
     = replicate StateCount 225"
  by code_simp

lemma sum_list_affine:
  "sum_list (map (\<lambda>k. 1 - c * real (f k)) xs)
     = real (length xs) - c * real (sum_list (map f xs))"
  by (induction xs) (simp_all add: algebra_simps)

lemma MoveWeights_sum_zero:
  assumes "t < StateCount"
  shows "sum_list (MoveWeights ! t) = 0"
proof -
  have "map (\<lambda>t. sum_list (map (circular_distance t) [0 ..< StateCount])) [0 ..< StateCount] ! t
          = replicate StateCount 225 ! t"
    by (simp only: circular_distance_sums)
  then have s: "sum_list (map (circular_distance t) [0 ..< StateCount]) = 225"
    using assms by simp
  have "MoveWeights ! t = map (\<lambda>k. 1 - BaseDiffPerState * real (circular_distance t k))
                             [0 ..< StateCount]"
    using assms by (simp add: MoveWeights_closed)
  then show ?thesis
    by (simp add: sum_list_affine s) (simp add: BaseDiffPerState_def StateCount_def)
qed

lemma SumMoveWeights_val: "SumMoveWeights = 226 / 15"
  by code_simp

text \<open>
  C5. Every template \<open>t\<close> is symmetric about its own index (the weights at the offsets
  \<open>+j\<close> and \<open>-j\<close> from \<open>t\<close> are equal, for every \<open>j\<close>), its weight at bin \<open>k\<close> is
  \<open>1 - (4/StateCount) * circular_distance t k\<close>, which is \<open>1\<close> at \<open>k = t\<close>, \<open>-1\<close> at the
  antipodal bin and between the two everywhere, and its entries sum to \<open>0\<close>.
\<close>

theorem templates_symmetric_zero_sum:
  assumes "t < StateCount"
  shows "length (MoveWeights ! t) = StateCount
       \<and> (\<forall>j. MoveWeights ! t ! nat (get_index_at_offset (int t) j)
              = MoveWeights ! t ! nat (get_index_at_offset (int t) (- j)))
       \<and> (\<forall>k<StateCount. MoveWeights ! t ! k
              = 1 - (4 / real StateCount) * real (circular_distance t k))
       \<and> MoveWeights ! t ! t = 1
       \<and> MoveWeights ! t ! nat (get_index_at_offset (int t) (int (StateCount div 2))) = - 1
       \<and> (\<forall>k<StateCount. - 1 \<le> MoveWeights ! t ! k \<and> MoveWeights ! t ! k \<le> 1)
       \<and> sum_list (MoveWeights ! t) = 0"
proof -
  have idx: "nat (get_index_at_offset (int t) j) < StateCount" for j
    using get_index_at_offset_range [of "int t" j] by simp
  have sym: "MoveWeights ! t ! nat (get_index_at_offset (int t) j)
              = MoveWeights ! t ! nat (get_index_at_offset (int t) (- j))" for j
    using assms idx circular_distance_offsets [of t j] by (simp add: MoveWeights_nth)
  have closed: "MoveWeights ! t ! k = 1 - (4 / real StateCount) * real (circular_distance t k)"
    if "k < StateCount" for k
    using assms that by (simp add: MoveWeights_nth BaseDiffPerState_def)
  have self: "MoveWeights ! t ! t = 1"
    using assms by (simp add: closed circular_distance_def)
  have anti: "MoveWeights ! t ! nat (get_index_at_offset (int t) (int (StateCount div 2))) = - 1"
    using idx by (simp add: closed circular_distance_antipode) (simp add: StateCount_def)
  have dist: "real (circular_distance t k) \<le> 15" for k
    using circular_distance_le [of t k] by (simp add: StateCount_def)
  have lo: "- 1 \<le> MoveWeights ! t ! k" if "k < StateCount" for k
    using that dist [of k] by (simp add: closed) (simp add: StateCount_def)
  have hi: "MoveWeights ! t ! k \<le> 1" if "k < StateCount" for k
    using that by (simp add: closed)
  have len: "length (MoveWeights ! t) = StateCount"
    using assms by (rule length_MoveWeights_nth)
  have zero: "sum_list (MoveWeights ! t) = 0"
    using assms by (rule MoveWeights_sum_zero)
  from len sym closed self anti lo hi zero show ?thesis
    by (intro conjI allI impI) assumption+
qed

theorem templates_symmetric_zero_sum_witness:
  "(3::nat) < StateCount
   \<and> MoveWeights ! 3 ! 3 = 1
   \<and> MoveWeights ! 3 ! nat (get_index_at_offset 3 (int (StateCount div 2))) = - 1
   \<and> sum_list (MoveWeights ! 3) = 0"
  using templates_symmetric_zero_sum [of 3] by (simp add: StateCount_def)

section \<open>The core loop\<close>

text \<open>
  Each of the three nested loops is a fold over its index range; its value after \<open>k\<close>
  rounds is given in closed form, by induction on \<open>k\<close>. A cell is read before it is
  written and no later round touches it again.
\<close>

lemma fold_core_body:
  "k \<le> length row \<Longrightarrow>
   fold (core_body h m) [0 ..< k] (p, row) =
     (p + sum_list (map (\<lambda>j. h ! j * row ! j) [0 ..< k]),
      map (\<lambda>j. if j < k then row ! j + m * h ! j else row ! j) [0 ..< length row])"
proof (induction k)
  case 0
  show ?case by (simp add: map_nth)
next
  case (Suc k)
  then have k: "k < length row" by simp
  have upd: "(map (\<lambda>j. if j < k then row ! j + m * h ! j else row ! j) [0 ..< length row])
               [k := row ! k + m * h ! k]
             = map (\<lambda>j. if j < Suc k then row ! j + m * h ! j else row ! j) [0 ..< length row]"
    using k by (intro nth_equalityI) (simp_all add: nth_list_update)
  show ?case using Suc k upd by (simp add: core_body_def)
qed

lemma fold_core_loop_i:
  "k \<le> length pred \<Longrightarrow> k \<le> length mw \<Longrightarrow> \<forall>i<k. length (mw ! i) = StateCount \<Longrightarrow>
   fold (core_loop_i h move) [0 ..< k] (pred, mw) =
     (map (\<lambda>i. if i < k then pred ! i + sum_list (map (\<lambda>j. h ! j * mw ! i ! j) [0 ..< StateCount])
                else pred ! i) [0 ..< length pred],
      map (\<lambda>i. if i < k then map (\<lambda>j. mw ! i ! j + move ! i * h ! j) [0 ..< StateCount]
                else mw ! i) [0 ..< length mw])"
proof (induction k)
  case 0
  show ?case by (simp add: map_nth)
next
  case (Suc k)
  then have k: "k < length pred" "k < length mw" "length (mw ! k) = StateCount" by simp_all
  have u1: "(map (\<lambda>i. if i < k then pred ! i + sum_list (map (\<lambda>j. h ! j * mw ! i ! j) [0 ..< StateCount])
                else pred ! i) [0 ..< length pred])
             [k := pred ! k + sum_list (map (\<lambda>j. h ! j * mw ! k ! j) [0 ..< StateCount])]
          = map (\<lambda>i. if i < Suc k then pred ! i + sum_list (map (\<lambda>j. h ! j * mw ! i ! j) [0 ..< StateCount])
                else pred ! i) [0 ..< length pred]"
    using k by (intro nth_equalityI) (simp_all add: nth_list_update)
  have u2: "(map (\<lambda>i. if i < k then map (\<lambda>j. mw ! i ! j + move ! i * h ! j) [0 ..< StateCount]
                else mw ! i) [0 ..< length mw])
             [k := map (\<lambda>j. mw ! k ! j + move ! k * h ! j) [0 ..< StateCount]]
          = map (\<lambda>i. if i < Suc k then map (\<lambda>j. mw ! i ! j + move ! i * h ! j) [0 ..< StateCount]
                else mw ! i) [0 ..< length mw]"
    using k by (intro nth_equalityI) (simp_all add: nth_list_update)
  have inner: "fold (core_body h (move ! k)) [0 ..< StateCount] (pred ! k, mw ! k) =
      (pred ! k + sum_list (map (\<lambda>j. h ! j * mw ! k ! j) [0 ..< StateCount]),
       map (\<lambda>j. mw ! k ! j + move ! k * h ! j) [0 ..< StateCount])"
    using fold_core_body [of StateCount "mw ! k" h "move ! k" "pred ! k"] k by simp
  show ?case using Suc k inner u1 u2 by (simp add: core_loop_i_def)
qed

lemma fold_core_loop_d:
  "k \<le> length ws \<Longrightarrow> length pred = StateCount \<Longrightarrow>
   \<forall>d<k. length (ws ! d) = StateCount \<and> (\<forall>i<StateCount. length (ws ! d ! i) = StateCount) \<Longrightarrow>
   fold (core_loop_d hist move) [0 ..< k] (pred, ws) =
     (map (\<lambda>i. pred ! i + sum_list (map (\<lambda>d. sum_list (map (\<lambda>j. hist ! d ! j * ws ! d ! i ! j)
                                                        [0 ..< StateCount]))
                                    [0 ..< k]))
          [0 ..< StateCount],
      map (\<lambda>d. if d < k
               then map (\<lambda>i. map (\<lambda>j. ws ! d ! i ! j + move ! i * hist ! d ! j)
                                 [0 ..< StateCount])
                        [0 ..< StateCount]
               else ws ! d)
          [0 ..< length ws])"
proof (induction k)
  case 0
  then show ?case by (simp add: map_nth) (intro nth_equalityI, simp_all)
next
  case (Suc k)
  let ?P = "map (\<lambda>i. pred ! i + sum_list (map (\<lambda>d. sum_list (map (\<lambda>j. hist ! d ! j * ws ! d ! i ! j)
                                                        [0 ..< StateCount]))
                                    [0 ..< k]))
          [0 ..< StateCount]"
  let ?M = "\<lambda>d. map (\<lambda>i. map (\<lambda>j. ws ! d ! i ! j + move ! i * hist ! d ! j)
                                 [0 ..< StateCount])
                        [0 ..< StateCount]"
  let ?W = "map (\<lambda>d. if d < k then ?M d else ws ! d) [0 ..< length ws]"
  from Suc.prems have k: "k < length ws" "length (ws ! k) = StateCount"
    "\<forall>i<StateCount. length (ws ! k ! i) = StateCount" by simp_all
  have IH: "fold (core_loop_d hist move) [0 ..< k] (pred, ws) = (?P, ?W)"
    using Suc by simp
  have Wk: "?W ! k = ws ! k" using k by simp
  have inner: "fold (core_loop_i (hist ! k) move) [0 ..< StateCount] (?P, ws ! k) =
      (map (\<lambda>i. ?P ! i + sum_list (map (\<lambda>j. hist ! k ! j * ws ! k ! i ! j) [0 ..< StateCount]))
         [0 ..< StateCount], ?M k)"
    using fold_core_loop_i [of StateCount ?P "ws ! k" "hist ! k" move] k by simp
  have p: "map (\<lambda>i. ?P ! i + sum_list (map (\<lambda>j. hist ! k ! j * ws ! k ! i ! j) [0 ..< StateCount]))
         [0 ..< StateCount]
       = map (\<lambda>i. pred ! i + sum_list (map (\<lambda>d. sum_list (map (\<lambda>j. hist ! d ! j * ws ! d ! i ! j)
                                                        [0 ..< StateCount]))
                                    [0 ..< Suc k]))
          [0 ..< StateCount]"
    by simp
  have w: "?W[k := ?M k] = map (\<lambda>d. if d < Suc k then ?M d else ws ! d) [0 ..< length ws]"
    using k by (intro nth_equalityI) (simp_all add: nth_list_update)
  have "fold (core_loop_d hist move) [0 ..< Suc k] (pred, ws) = core_loop_d hist move k (?P, ?W)"
    using IH by simp
  also have "\<dots> = (map (\<lambda>i. ?P ! i + sum_list (map (\<lambda>j. hist ! k ! j * ws ! k ! i ! j) [0 ..< StateCount]))
         [0 ..< StateCount], ?W[k := ?M k])"
    unfolding core_loop_d_def using inner Wk by simp
  finally show ?case using p w by simp
qed

lemma wf_engine_dims:
  assumes "wf_engine self" "d < length (weights self)"
  shows "length (weights self ! d) = StateCount"
    and "\<forall>i<StateCount. length (weights self ! d ! i) = StateCount"
  using assms by (auto simp: wf_engine_def list_all_length)

lemma core_loop_two_pass:
  assumes "wf_engine self"
  shows "core_loop (history self) move (weights self) =
           (predict_pass (history self) (weights self),
            update_pass (history self) move (weights self))"
proof -
  have len: "length (history self) \<le> length (weights self)"
    using assms by (simp add: wf_engine_def)
  have dims: "\<forall>d<length (history self). length (weights self ! d) = StateCount \<and>
                 (\<forall>i<StateCount. length (weights self ! d ! i) = StateCount)"
    using wf_engine_dims [OF assms] len by auto
  show ?thesis
    unfolding core_loop_def predict_pass_def update_pass_def
    using fold_core_loop_d [OF len _ dims, where pred = "new_Move StateCount" and move = move
        and hist = "history self"]
    by (simp add: new_Move_def)
qed


lemma record_move_two_pass:
  assumes "wf_engine self"
  shows "record_move_and_get_predicted degrees self =
           (case get_move degrees of
              Inl e \<Rightarrow> Inl e
            | Inr vector \<Rightarrow>
                Inr (predict_pass (history self) (weights self),
                     self\<lparr>history := next_history self vector,
                          weights := update_pass (history self) vector (weights self)\<rparr>))"
  by (simp add: record_move_and_get_predicted_def core_loop_two_pass [OF assms]
      next_history_def Let_def split: sum.splits)

text \<open>
  C2. For every (well-formed) engine state and every angle, the predicted vector is the
  sum over the lags \<open>d < len(history)\<close> and the bins \<open>j\<close> of
  \<open>history[d][j] * tensor_pre[d][i][j]\<close>, with the tensor as it is at call entry, and on
  return every cell at such a lag is \<open>tensor_pre[d][i][j] + vector[i] * history_pre[d][j]\<close>
  (the cells at lags without a history entry are not touched); the interleaved loop
  equals the two sequential passes.
\<close>

theorem record_move_reads_pre_update_tensor:
  assumes "wf_engine self"
  shows "record_move_and_get_predicted degrees self =
           (case get_move degrees of
              Inl e \<Rightarrow> Inl e
            | Inr vector \<Rightarrow>
                Inr (predict_pass (history self) (weights self),
                     self\<lparr>history := next_history self vector,
                          weights := update_pass (history self) vector (weights self)\<rparr>))
       \<and> (\<forall>vector. core_loop (history self) vector (weights self) =
             (predict_pass (history self) (weights self),
              update_pass (history self) vector (weights self)))"
  using record_move_two_pass [OF assms] core_loop_two_pass [OF assms] by simp

theorem record_move_reads_pre_update_tensor_witness:
  "wf_engine \<lparr>history_depth = 2, history = [replicate 30 1],
              weights = replicate 2 (replicate 30 (replicate 30 0)),
              scoreScaler = 1, ScoreScalerMiddle = 1\<rparr>
   \<and> core_loop [replicate 30 1] (replicate 30 2) (replicate 2 (replicate 30 (replicate 30 0))) =
       (predict_pass [replicate 30 1] (replicate 2 (replicate 30 (replicate 30 0))),
        update_pass [replicate 30 1] (replicate 30 2)
          (replicate 2 (replicate 30 (replicate 30 0))))"
proof -
  have wf: "wf_engine \<lparr>history_depth = 2, history = [replicate 30 1],
              weights = replicate 2 (replicate 30 (replicate 30 0)),
              scoreScaler = 1, ScoreScalerMiddle = 1\<rparr>"
    by (simp add: wf_engine_def StateCount_def list_all_iff)
  show ?thesis
    using wf record_move_reads_pre_update_tensor [OF wf, of 0] by simp
qed

section \<open>Angles, target states and Moves\<close>

lemma get_target_360: "get_target_state_and_weights 360 = get_target_state_and_weights 0"
  by (simp add: get_target_state_and_weights_def CircularRange_def)

lemma target_state_eq:
  "target_state degrees = \<lfloor>(if degrees = 360 then 0 else degrees) / 12\<rfloor>"
  by (simp add: target_state_def get_target_state_and_weights_def CircularRange_def
      StateCount_def Let_def)

lemma target_state_valid:
  assumes "0 \<le> degrees" "degrees \<le> 360"
  shows "0 \<le> target_state degrees" "target_state degrees < 30"
proof -
  let ?d = "if degrees = 360 then 0 else degrees"
  have "0 \<le> ?d / 12" "?d / 12 < 30" using assms by auto
  then show "0 \<le> target_state degrees" "target_state degrees < 30"
    unfolding target_state_eq by (simp_all add: floor_less_iff)
qed

lemma target_state_negative:
  assumes "- 360 \<le> degrees" "degrees < 0"
  shows "- 30 \<le> target_state degrees" "target_state degrees < 0"
proof -
  have "- 30 \<le> degrees / 12" "degrees / 12 < 0" using assms by auto
  then show "- 30 \<le> target_state degrees" "target_state degrees < 0"
    unfolding target_state_eq using assms by (simp_all add: le_floor_iff floor_less_iff)
qed

lemma target_state_above:
  assumes "360 < degrees"
  shows "30 \<le> target_state degrees"
proof -
  have "30 \<le> degrees / 12" using assms by auto
  then show ?thesis unfolding target_state_eq using assms by (simp add: le_floor_iff)
qed

lemma target_state_below:
  assumes "degrees < - 360"
  shows "target_state degrees < - 30"
proof -
  have "degrees / 12 < - 30" using assms by auto
  then show ?thesis unfolding target_state_eq using assms by (simp add: floor_less_iff)
qed

lemma target_weights:
  assumes "get_target_state_and_weights degrees = (t, t1_weight, t2_weight)"
  shows "0 \<le> t1_weight" "0 \<le> t2_weight" "t1_weight + t2_weight = 1"
proof -
  define d where "d = (if degrees = 360 then 0 else degrees)"
  have t: "t = \<lfloor>d / 12\<rfloor>"
    and w1: "t1_weight = 1 - ((real_of_int t + 1) / 30 - d / 360)"
    and w2: "t2_weight = 1 - t1_weight"
    using assms unfolding d_def
    by (auto simp: get_target_state_and_weights_def CircularRange_def StateCount_def Let_def)
  have lo: "real_of_int t \<le> d / 12" and hi: "d / 12 < real_of_int t + 1"
    unfolding t by linarith+
  have a: "0 \<le> (real_of_int t + 1) / 30 - d / 360" using hi by (simp add: field_simps)
  have b: "(real_of_int t + 1) / 30 - d / 360 \<le> 1 / 30" using lo by (simp add: field_simps)
  show "0 \<le> t1_weight" unfolding w1 using b by linarith
  show "0 \<le> t2_weight" unfolding w2 w1 using a by linarith
  show "t1_weight + t2_weight = 1" unfolding w2 by simp
qed

lemma list_get_MoveWeights:
  "list_get MoveWeights t =
     (if - 30 \<le> t \<and> t < 30 then Inr (MoveWeights ! nat (if t < 0 then t + 30 else t))
      else Inl IndexError)"
  by (auto simp: list_get_def length_MoveWeights StateCount_def)

lemma length_get_move_fold:
  "length (fold (get_move_step t a b base) js move) = length move"
  by (induction js arbitrary: move) (simp_all add: get_move_step_def)

lemma get_move_cases:
  "get_move degrees =
     (if - 30 \<le> target_state degrees \<and> target_state degrees < 30
      then Inr (projr (get_move degrees)) else Inl IndexError)"
  by (simp add: get_move_def target_state_def list_get_MoveWeights split: prod.splits)

lemma get_move_length:
  "get_move degrees = Inr vector \<Longrightarrow> length vector = StateCount"
  by (auto simp: get_move_def length_get_move_fold new_Move_def split: prod.splits sum.splits)

lemma get_move_ok:
  assumes "- 360 \<le> degrees" "degrees \<le> 360"
  shows "\<exists>vector. get_move degrees = Inr vector \<and> length vector = StateCount"
proof -
  have "- 30 \<le> target_state degrees \<and> target_state degrees < 30"
  proof (cases "degrees < 0")
    case True
    then show ?thesis using target_state_negative [of degrees] assms by simp
  next
    case False
    then show ?thesis using target_state_valid [of degrees] assms by simp
  qed
  then have "get_move degrees = Inr (projr (get_move degrees))"
    using get_move_cases [of degrees] by simp
  then show ?thesis using get_move_length by blast
qed

lemma get_move_fails:
  assumes "degrees < - 360 \<or> 360 < degrees"
  shows "get_move degrees = Inl IndexError"
proof -
  have "\<not> (- 30 \<le> target_state degrees \<and> target_state degrees < 30)"
    using assms target_state_below [of degrees] target_state_above [of degrees] by auto
  then show ?thesis by (subst get_move_cases) simp
qed

lemma get_move_360: "get_move 360 = get_move 0"
  by (simp add: get_move_def get_target_360)

lemma record_move_error:
  "get_move degrees = Inl e \<Longrightarrow> record_move_and_get_predicted degrees self = Inl e"
  by (simp add: record_move_and_get_predicted_def)

lemma record_move_ok:
  "get_move degrees = Inr vector \<Longrightarrow>
   \<exists>pred self'. record_move_and_get_predicted degrees self = Inr (pred, self')"
  by (simp add: record_move_and_get_predicted_def Let_def split: prod.splits)

section \<open>Scoring\<close>

lemma list_max_min_bounds:
  assumes "x \<in> set xs"
  shows "x \<le> list_max xs" "list_min xs \<le> x"
proof -
  from assms obtain y ys where xs: "xs = y # ys" by (cases xs) auto
  have "fold max ys y = Max (set (y # ys))" by (rule Max.set_eq_fold [symmetric])
  moreover have "fold min ys y = Min (set (y # ys))" by (rule Min.set_eq_fold [symmetric])
  ultimately have "list_max xs = Max (set xs)" "list_min xs = Min (set xs)"
    by (simp_all only: xs list_max_def list_min_def list.sel)
  then show "x \<le> list_max xs" "list_min xs \<le> x" using assms by simp_all
qed

lemma abs_le_max_abs:
  assumes "x \<in> set xs"
  shows "\<bar>x\<bar> \<le> max (list_max xs) \<bar>list_min xs\<bar>"
  using list_max_min_bounds [OF assms] by (simp add: abs_le_iff le_max_iff_disj) linarith

lemma blend_le_max_abs:
  assumes "x \<in> set xs" "y \<in> set xs" "0 \<le> a" "0 \<le> b" "a + b = 1"
  shows "\<bar>x * a + y * b\<bar> \<le> max (list_max xs) \<bar>list_min xs\<bar>"
proof -
  let ?M = "max (list_max xs) \<bar>list_min xs\<bar>"
  have "\<bar>x * a + y * b\<bar> \<le> \<bar>x\<bar> * a + \<bar>y\<bar> * b"
    using assms(3,4) by (metis abs_mult abs_of_nonneg abs_triangle_ineq)
  also have "\<dots> \<le> ?M * a + ?M * b"
    using abs_le_max_abs [OF assms(1)] abs_le_max_abs [OF assms(2)] assms(3,4)
    by (intro add_mono mult_right_mono)
  also have "\<dots> = ?M" using assms(5) by (simp add: distrib_left [symmetric])
  finally show ?thesis .
qed

lemma math_pow_nonneg:
  assumes "0 \<le> x" "0 \<le> y"
  shows "\<exists>r. math_pow x y = Inr r \<and> 0 \<le> r"
  using assms by (auto simp: math_pow_def)

lemma get_scoring_weight_frame:
  "snd (get_scoring_weight degrees predicted self) = self"
  by (simp add: get_scoring_weight_def Let_def split: prod.splits sum.splits)

lemma get_scoring_weight_zero:
  assumes "sum_list (map abs predicted) = 0"
  shows "get_scoring_weight degrees predicted self = (Inr (0, 0, 0), self)"
  using assms by (simp add: get_scoring_weight_def Let_def split: prod.splits)

lemma get_scoring_weight_nonneg:
  assumes deg: "0 \<le> degrees" "degrees \<le> 360"
    and len: "length predicted = StateCount"
    and sc: "0 \<le> scoreScaler self" and mid: "ScoreScalerMiddle self \<noteq> 0"
  shows "\<exists>feedback pos neg.
           get_scoring_weight degrees predicted self = (Inr (feedback, pos, neg), self)
           \<and> 0 \<le> pos \<and> 0 \<le> neg"
proof (cases "0 < sum_list (map abs predicted)")
  case False
  have "0 \<le> sum_list (map abs predicted)" by (rule sum_list_nonneg) auto
  with False have "sum_list (map abs predicted) = 0" by simp
  then show ?thesis using get_scoring_weight_zero by fastforce
next
  case True
  obtain t a b where tw: "get_target_state_and_weights degrees = (t, a, b)"
    by (cases "get_target_state_and_weights degrees") auto
  have t: "0 \<le> t" "t < 30"
    using target_state_valid [OF deg] tw by (simp_all add: target_state_def)
  have w: "0 \<le> a" "0 \<le> b" "a + b = 1" using target_weights [OF tw] by simp_all
  let ?u = "get_index_at_offset t 1"
  have u: "0 \<le> ?u" "?u < 30" using get_index_at_offset_range [of t 1] by (simp_all add: StateCount_def)
  have g1: "list_get predicted t = Inr (predicted ! nat t)"
    using t len by (simp add: list_get_def StateCount_def)
  have g2: "list_get predicted ?u = Inr (predicted ! nat ?u)"
    using u len by (simp add: list_get_def StateCount_def)
  have m1: "predicted ! nat t \<in> set predicted" using t len by (simp add: StateCount_def)
  have m2: "predicted ! nat ?u \<in> set predicted" using u len by (simp add: StateCount_def)
  let ?S = "sum_list (map abs predicted)"
  let ?c = "predicted ! nat t * a + predicted ! nat ?u * b"
  let ?M = "max (list_max predicted) \<bar>list_min predicted\<bar>"
  have cM: "\<bar>?c\<bar> \<le> ?M" using blend_le_max_abs [OF m1 m2 w] .
  obtain scaler where p: "math_pow (real (length (history self))) (scoreScaler self) = Inr scaler"
    and s0: "0 \<le> scaler"
    using math_pow_nonneg [OF _ sc, of "real (length (history self))"] by auto
  have d: "float_div scaler (ScoreScalerMiddle self) = Inr (scaler / ScoreScalerMiddle self)"
    using mid by (simp add: float_div_def)
  let ?score = "(?c / ?S) * SumMoveWeights"
  let ?norm = "(?M / ?S) * SumMoveWeights"
  have eq: "get_scoring_weight degrees predicted self =
      (Inr (- (?score * (scaler / ScoreScalerMiddle self)),
            (?norm - ?score) * scaler, (?norm + ?score) * scaler), self)"
    using True by (simp add: get_scoring_weight_def tw g1 g2 p d Let_def)
  have e1: "?norm - ?score = ((?M - ?c) / ?S) * SumMoveWeights"
    by (simp add: algebra_simps diff_divide_distrib)
  have "0 \<le> ((?M - ?c) / ?S) * SumMoveWeights"
    using cM True by (simp add: SumMoveWeights_val abs_le_iff)
  then have "0 \<le> ?norm - ?score" by (simp only: e1)
  then have pos: "0 \<le> (?norm - ?score) * scaler" using s0 by (rule mult_nonneg_nonneg)
  have e2: "?norm + ?score = ((?M + ?c) / ?S) * SumMoveWeights"
    by (simp add: algebra_simps add_divide_distrib)
  have "0 \<le> ((?M + ?c) / ?S) * SumMoveWeights"
    using cM True by (simp add: SumMoveWeights_val abs_le_iff)
  then have "0 \<le> ?norm + ?score" by (simp only: e2)
  then have neg: "0 \<le> (?norm + ?score) * scaler" using s0 by (rule mult_nonneg_nonneg)
  show ?thesis using eq pos neg by blast
qed

section \<open>Construction\<close>

lemma init_nonpositive:
  "history_depth_count \<le> 0 \<Longrightarrow> MovePredictionEngine_init history_depth_count = Inl ValueError"
  by (simp add: MovePredictionEngine_init_def math_log_def)

lemma init_one: "MovePredictionEngine_init 1 = Inl ZeroDivisionError"
  by (simp add: MovePredictionEngine_init_def math_log_def float_div_def)

lemma init_ok:
  assumes "1 < history_depth_count"
  shows "MovePredictionEngine_init history_depth_count =
           Inr \<lparr>history_depth = history_depth_count,
                history = [],
                weights = replicate (nat history_depth_count)
                            (replicate StateCount (new_Move StateCount)),
                scoreScaler = 1 / ln (real_of_int history_depth_count),
                ScoreScalerMiddle =
                  (real_of_int history_depth_count / 2) powr
                    (1 / ln (real_of_int history_depth_count))\<rparr>"
proof -
  have l: "0 < ln (real_of_int history_depth_count)" using assms by simp
  then show ?thesis
    using assms
    by (simp add: MovePredictionEngine_init_def math_log_def float_div_def math_pow_def)
qed

lemma init_wf:
  assumes "1 < history_depth_count"
  shows "\<exists>eng. MovePredictionEngine_init history_depth_count = Inr eng
           \<and> wf_engine eng \<and> history eng = [] \<and> history_depth eng = history_depth_count
           \<and> weights eng = replicate (nat history_depth_count)
                              (replicate StateCount (new_Move StateCount))
           \<and> 0 < scoreScaler eng \<and> 0 < ScoreScalerMiddle eng"
proof -
  have l: "0 < ln (real_of_int history_depth_count)" using assms by simp
  show ?thesis
    using assms l
    by (simp add: init_ok wf_engine_def new_Move_def list_all_iff)
qed

text \<open>
  C7 (amended). The source has no check of \<open>history_depth\<close> and no configuration error
  of its own. Constructing an engine fails for every \<open>history_depth \<le> 1\<close> with the
  exception Python raises in \<open>1.0 / math.log(history_depth)\<close>, a ZeroDivisionError for
  depth 1 and a ValueError for a depth below 1, and succeeds for every integer
  \<open>history_depth > 1\<close>.
\<close>

theorem engine_construction_depth:
  "(history_depth_count \<le> 1 \<longrightarrow>
      MovePredictionEngine_init history_depth_count =
        Inl (if history_depth_count = 1 then ZeroDivisionError else ValueError))
   \<and> (1 < history_depth_count \<longrightarrow>
        (\<exists>eng. MovePredictionEngine_init history_depth_count = Inr eng
               \<and> history_depth eng = history_depth_count \<and> history eng = []))"
proof (intro conjI impI)
  assume "history_depth_count \<le> 1"
  then have "history_depth_count = 1 \<or> history_depth_count \<le> 0" by linarith
  then show "MovePredictionEngine_init history_depth_count =
        Inl (if history_depth_count = 1 then ZeroDivisionError else ValueError)"
    using init_one init_nonpositive by auto
next
  assume "1 < history_depth_count"
  then show "\<exists>eng. MovePredictionEngine_init history_depth_count = Inr eng
               \<and> history_depth eng = history_depth_count \<and> history eng = []"
    using init_wf by blast
qed

theorem engine_construction_depth_witness:
  "MovePredictionEngine_init 1 = Inl ZeroDivisionError
   \<and> MovePredictionEngine_init 0 = Inl ValueError
   \<and> (\<exists>eng. MovePredictionEngine_init 2 = Inr eng \<and> history_depth eng = 2 \<and> history eng = [])"
  using engine_construction_depth [of 1] engine_construction_depth [of 0]
    engine_construction_depth [of 2]
  by simp

text \<open>At depth 1 the error is the ZeroDivisionError of \<open>1.0 / math.log(1)\<close>.\<close>

theorem construction_depth_one_zero_division:
  "MovePredictionEngine_init 1 = Inl ZeroDivisionError"
  by (rule init_one)

section \<open>The claims about angles and scoring\<close>

text \<open>
  C3 (the code departs from its own description). The header of the source says that
  a move of 24 degrees gives \<open>state_2 = 1.0\<close> and \<open>state_3 = 0.867\<close>, which is template 2.
  At 24 degrees the code computes \<open>t = 2\<close>, \<open>t1_weight = 29/30\<close> and \<open>t2_weight = 1/30\<close>, and
  the Move it returns has \<open>224/225\<close> and \<open>196/225\<close> at the states 2 and 3, where template 2
  has \<open>1\<close> and \<open>13/15\<close>.
\<close>

theorem get_move_24_is_not_template_2:
  "get_target_state_and_weights 24 = (2, 29 / 30, 1 / 30)
   \<and> map_sum id (\<lambda>move. (move ! 2, move ! 3)) (get_move 24) = Inr (224 / 225, 196 / 225)
   \<and> (MoveWeights ! 2 ! 2, MoveWeights ! 2 ! 3) = (1, 13 / 15)"
  by code_simp

text \<open>
  C4. For every angle in \<open>[0, 360]\<close> and every predicted vector of \<open>StateCount\<close> states,
  on an engine whose \<open>scoreScaler\<close> is not negative and whose \<open>ScoreScalerMiddle\<close> is not
  zero (every constructed engine is such), \<open>get_scoring_weight\<close> returns, and the \<open>pos\<close>
  and \<open>neg\<close> values it returns are not negative.
\<close>

theorem scoring_contributions_nonneg:
  assumes "0 \<le> degrees" "degrees \<le> 360"
    and "length predicted = StateCount"
    and "0 \<le> scoreScaler self" and "ScoreScalerMiddle self \<noteq> 0"
  shows "\<exists>feedback pos neg.
           fst (get_scoring_weight degrees predicted self) = Inr (feedback, pos, neg)
           \<and> 0 \<le> pos \<and> 0 \<le> neg"
  using get_scoring_weight_nonneg [OF assms] by fastforce

theorem scoring_contributions_nonneg_witness:
  "\<exists>feedback pos neg.
     fst (get_scoring_weight 24 (replicate 30 1)
            \<lparr>history_depth = 2, history = [replicate 30 1],
             weights = replicate 2 (replicate 30 (replicate 30 0)),
             scoreScaler = 1, ScoreScalerMiddle = 1\<rparr>) = Inr (feedback, pos, neg)
     \<and> 0 \<le> pos \<and> 0 \<le> neg"
  using scoring_contributions_nonneg [of 24 "replicate 30 1"
      "\<lparr>history_depth = 2, history = [replicate 30 1],
        weights = replicate 2 (replicate 30 (replicate 30 0)),
        scoreScaler = 1, ScoreScalerMiddle = 1\<rparr>"]
  by (simp add: StateCount_def)

text \<open>
  C6 (amended). \<open>record_move_and_get_predicted\<close> does not validate the angle. The angle
  360 is normalised to 0 and treated as 0. Every angle in \<open>[-360, 360]\<close> is accepted (for
  a negative angle the template is selected by Python's negative indexing). An angle
  below -360 or above 360 fails with the IndexError of \<open>MoveWeights[t]\<close>.
\<close>

theorem record_move_angle_range:
  "(degrees < - 360 \<or> 360 < degrees \<longrightarrow>
      record_move_and_get_predicted degrees self = Inl IndexError)
   \<and> (- 360 \<le> degrees \<and> degrees \<le> 360 \<longrightarrow>
        (\<exists>pred self'. record_move_and_get_predicted degrees self = Inr (pred, self')))
   \<and> get_target_state_and_weights 360 = get_target_state_and_weights 0
   \<and> record_move_and_get_predicted 360 self = record_move_and_get_predicted 0 self"
proof (intro conjI impI)
  assume "degrees < - 360 \<or> 360 < degrees"
  then show "record_move_and_get_predicted degrees self = Inl IndexError"
    using get_move_fails record_move_error by blast
next
  assume "- 360 \<le> degrees \<and> degrees \<le> 360"
  then show "\<exists>pred self'. record_move_and_get_predicted degrees self = Inr (pred, self')"
    using get_move_ok record_move_ok by blast
next
  show "get_target_state_and_weights 360 = get_target_state_and_weights 0"
    by (rule get_target_360)
next
  show "record_move_and_get_predicted 360 self = record_move_and_get_predicted 0 self"
    by (simp add: record_move_and_get_predicted_def get_move_360)
qed

theorem record_move_angle_range_witness:
  "record_move_and_get_predicted 400
     \<lparr>history_depth = 2, history = [], weights = replicate 2 (replicate 30 (replicate 30 0)),
      scoreScaler = 1 / ln 2, ScoreScalerMiddle = 1\<rparr> = Inl IndexError
   \<and> (\<exists>pred self'. record_move_and_get_predicted (- 12)
         \<lparr>history_depth = 2, history = [], weights = replicate 2 (replicate 30 (replicate 30 0)),
          scoreScaler = 1 / ln 2, ScoreScalerMiddle = 1\<rparr> = Inr (pred, self'))"
  using record_move_angle_range [of 400 "\<lparr>history_depth = 2, history = [],
          weights = replicate 2 (replicate 30 (replicate 30 0)),
          scoreScaler = 1 / ln 2, ScoreScalerMiddle = 1\<rparr>"]
    record_move_angle_range [of "- 12" "\<lparr>history_depth = 2, history = [],
          weights = replicate 2 (replicate 30 (replicate 30 0)),
          scoreScaler = 1 / ln 2, ScoreScalerMiddle = 1\<rparr>"]
  by simp

theorem negative_angle_is_accepted:
  "MovePredictionEngine_init 2 =
     Inr \<lparr>history_depth = 2, history = [],
          weights = replicate 2 (replicate StateCount (new_Move StateCount)),
          scoreScaler = 1 / ln 2, ScoreScalerMiddle = 1\<rparr>
   \<and> \<not> isl (record_move_and_get_predicted (- 12)
        \<lparr>history_depth = 2, history = [],
         weights = replicate 2 (replicate StateCount (new_Move StateCount)),
         scoreScaler = 1 / ln 2, ScoreScalerMiddle = 1\<rparr>)"
proof -
  have "\<exists>vector. get_move (- 12) = Inr vector \<and> length vector = StateCount"
    by (rule get_move_ok) simp_all
  then obtain vector where "get_move (- 12) = Inr vector" by blast
  then have "\<not> isl (record_move_and_get_predicted (- 12)
        \<lparr>history_depth = 2, history = [],
         weights = replicate 2 (replicate StateCount (new_Move StateCount)),
         scoreScaler = 1 / ln 2, ScoreScalerMiddle = 1\<rparr>)"
    by (simp add: record_move_and_get_predicted_def Let_def split: prod.splits)
  moreover have "MovePredictionEngine_init 2 =
     Inr \<lparr>history_depth = 2, history = [],
          weights = replicate 2 (replicate StateCount (new_Move StateCount)),
          scoreScaler = 1 / ln 2, ScoreScalerMiddle = 1\<rparr>"
    using init_ok [of 2] by simp
  ultimately show ?thesis by simp
qed

text \<open>
  C10. \<open>get_scoring_weight\<close> leaves the engine as it found it (the history, the weight
  tensor, \<open>history_depth\<close>, \<open>scoreScaler\<close> and \<open>ScoreScalerMiddle\<close>), so a second call with
  the same arguments returns what the first returned.
\<close>

theorem get_scoring_weight_leaves_engine:
  "snd (get_scoring_weight degrees predicted self) = self
   \<and> get_scoring_weight degrees predicted (snd (get_scoring_weight degrees predicted self))
       = get_scoring_weight degrees predicted self"
  by (simp add: get_scoring_weight_frame)

section \<open>Rounds\<close>

lemma length_predict_pass: "length (predict_pass hist ws) = StateCount"
  by (simp add: predict_pass_def)

lemma update_pass_nth:
  assumes "d < length ws" "i < StateCount" "j < StateCount"
  shows "update_pass hist vector ws ! d ! i ! j =
           (if d < length hist then ws ! d ! i ! j + vector ! i * hist ! d ! j
            else ws ! d ! i ! j)"
  using assms by (simp add: update_pass_def)

lemma update_pass_no_history: "update_pass [] vector ws = ws"
  by (simp add: update_pass_def map_nth)

lemma predict_pass_no_history: "predict_pass [] ws = new_Move StateCount"
  by (simp add: predict_pass_def new_Move_def map_replicate_const)

lemma sum_list_all_zero:
  "(\<And>x. x \<in> set xs \<Longrightarrow> f x = 0) \<Longrightarrow> sum_list (map f xs) = (0::real)"
  by (induction xs) simp_all

lemma predict_pass_zero_tensor:
  assumes "length hist \<le> n"
  shows "predict_pass hist (replicate n (replicate StateCount (new_Move StateCount)))
           = new_Move StateCount"
proof -
  let ?ws = "replicate n (replicate StateCount (new_Move StateCount))"
  have cell: "?ws ! d ! i ! j = 0" if "d < length hist" "i < StateCount" "j < StateCount" for d i j
    using that assms by (simp add: new_Move_def)
  have inner: "sum_list (map (\<lambda>j. hist ! d ! j * ?ws ! d ! i ! j) [0 ..< StateCount]) = 0"
    if "d < length hist" "i < StateCount" for d i
    by (rule sum_list_all_zero) (use that cell in auto)
  have outer: "sum_list (map (\<lambda>d. sum_list (map (\<lambda>j. hist ! d ! j * ?ws ! d ! i ! j)
                  [0 ..< StateCount])) [0 ..< length hist]) = 0"
    if "i < StateCount" for i
    by (rule sum_list_all_zero) (use that inner in auto)
  have "predict_pass hist ?ws = map (\<lambda>i. 0) [0 ..< StateCount]"
    unfolding predict_pass_def by (rule map_cong) (use outer in auto)
  then show ?thesis by (simp only: new_Move_def map_replicate_const length_upt diff_zero)
qed

lemma sum_abs_new_Move: "sum_list (map abs (new_Move n)) = 0"
  by (simp add: new_Move_def sum_list_replicate)

lemma wf_engine_iff:
  "wf_engine self \<longleftrightarrow>
     history_depth self = int (length (weights self)) \<and>
     length (history self) \<le> length (weights self) \<and>
     (\<forall>h\<in>set (history self). length h = StateCount) \<and>
     (\<forall>d<length (weights self). length (weights self ! d) = StateCount \<and>
        (\<forall>i<StateCount. length (weights self ! d ! i) = StateCount))"
proof -
  have "list_all (\<lambda>m. length m = StateCount \<and> list_all (\<lambda>r. length r = StateCount) m)
          (weights self) \<longleftrightarrow>
        (\<forall>d<length (weights self). length (weights self ! d) = StateCount \<and>
          (\<forall>i<StateCount. length (weights self ! d ! i) = StateCount))"
    unfolding list_all_length by (rule all_cong) auto
  then show ?thesis unfolding wf_engine_def by (simp only: list_all_iff)
qed

lemma length_update_pass: "length (update_pass hist vector ws) = length ws"
  by (simp add: update_pass_def)

lemma update_pass_dims:
  assumes "\<forall>d<length ws. length (ws ! d) = StateCount \<and>
             (\<forall>i<StateCount. length (ws ! d ! i) = StateCount)"
    and "d < length ws"
  shows "length (update_pass hist vector ws ! d) = StateCount"
    and "\<forall>i<StateCount. length (update_pass hist vector ws ! d ! i) = StateCount"
proof -
  have nth: "update_pass hist vector ws ! d =
      (if d < length hist
       then map (\<lambda>i. map (\<lambda>j. ws ! d ! i ! j + vector ! i * hist ! d ! j) [0 ..< StateCount])
              [0 ..< StateCount]
       else ws ! d)"
    using assms(2) by (simp add: update_pass_def)
  show "length (update_pass hist vector ws ! d) = StateCount"
    unfolding nth using assms by simp
  show "\<forall>i<StateCount. length (update_pass hist vector ws ! d ! i) = StateCount"
    unfolding nth using assms by simp
qed

lemma next_history_wf:
  assumes "history_depth self = int (length (weights self))"
    and "length (history self) \<le> length (weights self)"
    and "\<forall>h\<in>set (history self). length h = StateCount"
    and "length vector = StateCount"
  shows "length (next_history self vector) \<le> length (weights self)"
    and "\<forall>h\<in>set (next_history self vector). length h = StateCount"
proof -
  show "length (next_history self vector) \<le> length (weights self)"
    using assms(1,2) by (simp add: next_history_def)
  have "set (next_history self vector) \<subseteq> insert vector (set (history self))"
    by (auto simp: next_history_def dest: in_set_butlastD)
  then show "\<forall>h\<in>set (next_history self vector). length h = StateCount"
    using assms(3,4) by auto
qed

lemma record_move_step:
  assumes wf: "wf_engine self" and gm: "get_move degrees = Inr vector"
  shows "record_move_and_get_predicted degrees self =
           Inr (predict_pass (history self) (weights self),
                self\<lparr>history := next_history self vector,
                     weights := update_pass (history self) vector (weights self)\<rparr>)"
    and "wf_engine (self\<lparr>history := next_history self vector,
                          weights := update_pass (history self) vector (weights self)\<rparr>)"
proof -
  show "record_move_and_get_predicted degrees self =
           Inr (predict_pass (history self) (weights self),
                self\<lparr>history := next_history self vector,
                     weights := update_pass (history self) vector (weights self)\<rparr>)"
    using record_move_two_pass [OF wf, of degrees] gm by simp
  have lv: "length vector = StateCount" using gm by (rule get_move_length)
  have hd: "history_depth self = int (length (weights self))"
    and hl: "length (history self) \<le> length (weights self)"
    and hs: "\<forall>h\<in>set (history self). length h = StateCount"
    and ws: "\<forall>d<length (weights self). length (weights self ! d) = StateCount \<and>
               (\<forall>i<StateCount. length (weights self ! d ! i) = StateCount)"
    using wf unfolding wf_engine_iff by blast+
  note nh = next_history_wf [OF hd hl hs lv]
  note ud = update_pass_dims [OF ws]
  show "wf_engine (self\<lparr>history := next_history self vector,
                          weights := update_pass (history self) vector (weights self)\<rparr>)"
    unfolding wf_engine_iff using hd nh ud by (simp add: length_update_pass)
qed

lemma first_two_moves:
  assumes hd: "1 < history_depth_count"
    and a1: "- 360 \<le> a1" "a1 \<le> 360" and a2: "- 360 \<le> a2" "a2 \<le> 360"
  shows "\<exists>e0 e1 e2.
           MovePredictionEngine_init history_depth_count = Inr e0
           \<and> record_move_and_get_predicted a1 e0 = Inr (new_Move StateCount, e1)
           \<and> record_move_and_get_predicted a2 e1 = Inr (new_Move StateCount, e2)
           \<and> length (history e1) = 1 \<and> length (history e2) = 2 \<and> wf_engine e2
           \<and> scoreScaler e2 = scoreScaler e0
           \<and> ScoreScalerMiddle e2 = ScoreScalerMiddle e0
           \<and> (\<exists>v1 v2. get_move a1 = Inr v1 \<and> get_move a2 = Inr v2
                  \<and> history e2 = [v2, v1]
                  \<and> weights e2 = update_pass [v1] v2
                       (replicate (nat history_depth_count)
                          (replicate StateCount (new_Move StateCount))))"
proof -
  let ?Z = "replicate (nat history_depth_count) (replicate StateCount (new_Move StateCount))"
  obtain e0 where e0: "MovePredictionEngine_init history_depth_count = Inr e0"
    and wf0: "wf_engine e0" and h0: "history e0 = []"
    and d0: "history_depth e0 = history_depth_count" and w0: "weights e0 = ?Z"
    using init_wf [OF hd] by blast
  obtain v1 where v1: "get_move a1 = Inr v1" using get_move_ok [OF a1] by blast
  obtain v2 where v2: "get_move a2 = Inr v2" using get_move_ok [OF a2] by blast
  define e1 where "e1 = e0\<lparr>history := next_history e0 v1,
                            weights := update_pass (history e0) v1 (weights e0)\<rparr>"
  define e2 where "e2 = e1\<lparr>history := next_history e1 v2,
                            weights := update_pass (history e1) v2 (weights e1)\<rparr>"
  have r1: "record_move_and_get_predicted a1 e0 = Inr (new_Move StateCount, e1)"
    using record_move_step(1) [OF wf0 v1] by (simp add: e1_def h0 predict_pass_no_history)
  have wf1: "wf_engine e1" unfolding e1_def by (rule record_move_step(2) [OF wf0 v1])
  have h1: "history e1 = [v1]" using hd by (simp add: e1_def next_history_def h0 d0)
  have w1: "weights e1 = ?Z" by (simp add: e1_def h0 update_pass_no_history w0)
  have d1: "history_depth e1 = history_depth_count" by (simp add: e1_def d0)
  have "predict_pass [v1] ?Z = new_Move StateCount"
    by (rule predict_pass_zero_tensor) (use hd in simp)
  then have r2: "record_move_and_get_predicted a2 e1 = Inr (new_Move StateCount, e2)"
    using record_move_step(1) [OF wf1 v2] by (simp add: e2_def h1 w1)
  have wf2: "wf_engine e2" unfolding e2_def by (rule record_move_step(2) [OF wf1 v2])
  have h2: "history e2 = [v2, v1]" using hd by (simp add: e2_def next_history_def h1 d1)
  have w2: "weights e2 = update_pass [v1] v2 ?Z" by (simp add: e2_def h1 w1)
  have s: "scoreScaler e2 = scoreScaler e0" "ScoreScalerMiddle e2 = ScoreScalerMiddle e0"
    by (simp_all add: e2_def e1_def)
  have "\<exists>v1 v2. get_move a1 = Inr v1 \<and> get_move a2 = Inr v2 \<and> history e2 = [v2, v1]
           \<and> weights e2 = update_pass [v1] v2 ?Z"
    using v1 v2 h2 w2 by blast
  moreover have "length (history e1) = 1" "length (history e2) = 2" using h1 h2 by simp_all
  ultimately show ?thesis using e0 r1 r2 wf2 s by blast
qed

text \<open>
  C8 (amended). An all-zero predicted vector, for which \<open>get_scoring_weight\<close> returns
  \<open>(0, 0, 0)\<close>, is what every round gets on its first move, when the history is empty,
  and also on its second move, when the history holds one Move and the weight tensor is
  still all zero.
\<close>

theorem first_two_predictions_are_zero:
  assumes "1 < history_depth_count"
    and "0 \<le> a1" "a1 \<le> 360" and "0 \<le> a2" "a2 \<le> 360"
  shows "\<exists>e0 e1 e2.
           MovePredictionEngine_init history_depth_count = Inr e0
           \<and> record_move_and_get_predicted a1 e0 = Inr (new_Move StateCount, e1)
           \<and> length (history e1) = 1
           \<and> record_move_and_get_predicted a2 e1 = Inr (new_Move StateCount, e2)
           \<and> sum_list (map abs (new_Move StateCount)) = 0
           \<and> fst (get_scoring_weight a1 (new_Move StateCount) e1) = Inr (0, 0, 0)
           \<and> fst (get_scoring_weight a2 (new_Move StateCount) e2) = Inr (0, 0, 0)"
proof -
  obtain e0 e1 e2 where
    "MovePredictionEngine_init history_depth_count = Inr e0"
    "record_move_and_get_predicted a1 e0 = Inr (new_Move StateCount, e1)"
    "record_move_and_get_predicted a2 e1 = Inr (new_Move StateCount, e2)"
    "length (history e1) = 1"
    using first_two_moves [of history_depth_count a1 a2] assms by auto
  then show ?thesis
    by (intro exI [of _ e0] exI [of _ e1] exI [of _ e2])
      (simp add: sum_abs_new_Move get_scoring_weight_zero)
qed

theorem first_two_predictions_are_zero_witness:
  "\<exists>e0 e1 e2.
     MovePredictionEngine_init 2 = Inr e0
     \<and> record_move_and_get_predicted 0 e0 = Inr (new_Move StateCount, e1)
     \<and> length (history e1) = 1
     \<and> record_move_and_get_predicted 90 e1 = Inr (new_Move StateCount, e2)
     \<and> sum_list (map abs (new_Move StateCount)) = 0
     \<and> fst (get_scoring_weight 0 (new_Move StateCount) e1) = Inr (0, 0, 0)
     \<and> fst (get_scoring_weight 90 (new_Move StateCount) e2) = Inr (0, 0, 0)"
  using first_two_predictions_are_zero [of 2 0 90] by simp

theorem second_prediction_is_zero:
  "map_sum id fst (play_round 2 [0, 90]) = Inr [new_Move StateCount, new_Move StateCount]
   \<and> sum_list (map abs (new_Move StateCount)) = 0"
proof -
  obtain e0 e1 e2 where
    "MovePredictionEngine_init 2 = Inr e0"
    "record_move_and_get_predicted 0 e0 = Inr (new_Move StateCount, e1)"
    "record_move_and_get_predicted 90 e1 = Inr (new_Move StateCount, e2)"
    using first_two_moves [of 2 0 90] by auto
  then show ?thesis by (simp add: play_round_def sum_abs_new_Move)
qed

lemma record_move_cell:
  assumes wf: "wf_engine self" and deg: "- 360 \<le> degrees" "degrees \<le> 360"
    and d: "d < length (weights self)" and i: "i < StateCount" and j: "j < StateCount"
  shows "\<exists>vector pred self'.
           get_move degrees = Inr vector
           \<and> record_move_and_get_predicted degrees self = Inr (pred, self')
           \<and> weights self' ! d ! i ! j =
               (if d < length (history self)
                then weights self ! d ! i ! j + vector ! i * history self ! d ! j
                else weights self ! d ! i ! j)"
proof -
  obtain vector where v: "get_move degrees = Inr vector" using get_move_ok [OF deg] by blast
  show ?thesis
    using v record_move_step(1) [OF wf v] update_pass_nth [OF d i j, of "history self" vector]
    by simp
qed

lemma abs_grows_same_sign:
  fixes c inc :: real
  assumes "0 \<le> c * inc"
  shows "\<bar>c\<bar> \<le> \<bar>c + inc\<bar>"
proof -
  from assms have "(0 \<le> c \<and> 0 \<le> inc) \<or> (c \<le> 0 \<and> inc \<le> 0)"
    by (simp add: zero_le_mult_iff)
  then show ?thesis by linarith
qed

lemma get_move_0_180_state_0:
  "map_sum id (\<lambda>move. move ! 0) (get_move 0) = Inr (224 / 225)
   \<and> map_sum id (\<lambda>move. move ! 0) (get_move 180) = Inr (- (224 / 225))"
  by code_simp

text \<open>
  C9 (amended). Within a round the weight tensor is never reset: a call of
  \<open>record_move_and_get_predicted\<close> adds \<open>vector[i] * history[d][j]\<close> to the cell
  \<open>[d][i][j]\<close> at every lag \<open>d < len(history)\<close> and leaves the other cells as they are.
  The absolute value of a cell does not decrease in a call whose increment does not have
  the opposite sign of the cell.
\<close>

theorem tensor_cell_accumulates:
  assumes "wf_engine self" and "- 360 \<le> degrees" "degrees \<le> 360"
    and "d < length (weights self)" and "i < StateCount" and "j < StateCount"
  shows "\<exists>vector pred self'.
           get_move degrees = Inr vector
           \<and> record_move_and_get_predicted degrees self = Inr (pred, self')
           \<and> weights self' ! d ! i ! j =
               (if d < length (history self)
                then weights self ! d ! i ! j + vector ! i * history self ! d ! j
                else weights self ! d ! i ! j)
           \<and> (0 \<le> weights self ! d ! i ! j * (vector ! i * history self ! d ! j) \<longrightarrow>
                \<bar>weights self ! d ! i ! j\<bar> \<le> \<bar>weights self' ! d ! i ! j\<bar>)"
proof -
  obtain vector pred self' where v: "get_move degrees = Inr vector"
    and r: "record_move_and_get_predicted degrees self = Inr (pred, self')"
    and c: "weights self' ! d ! i ! j =
               (if d < length (history self)
                then weights self ! d ! i ! j + vector ! i * history self ! d ! j
                else weights self ! d ! i ! j)"
    using record_move_cell [OF assms] by blast
  have "\<bar>weights self ! d ! i ! j\<bar> \<le> \<bar>weights self' ! d ! i ! j\<bar>"
    if "0 \<le> weights self ! d ! i ! j * (vector ! i * history self ! d ! j)"
    unfolding c using abs_grows_same_sign [OF that] by simp
  then show ?thesis using v r c by blast
qed

theorem tensor_cell_accumulates_witness:
  "\<exists>vector pred self'.
     get_move 0 = Inr vector
     \<and> record_move_and_get_predicted 0
          \<lparr>history_depth = 2, history = [replicate 30 1],
           weights = replicate 2 (replicate 30 (replicate 30 0)),
           scoreScaler = 1, ScoreScalerMiddle = 1\<rparr> = Inr (pred, self')
     \<and> weights self' ! 0 ! 0 ! 0 = vector ! 0"
proof -
  have wf: "wf_engine \<lparr>history_depth = 2, history = [replicate 30 1],
              weights = replicate 2 (replicate 30 (replicate 30 0)),
              scoreScaler = 1, ScoreScalerMiddle = 1\<rparr>"
    by (simp add: wf_engine_def StateCount_def list_all_iff)
  show ?thesis
    using tensor_cell_accumulates [OF wf, of 0 0 0 0] by (simp add: StateCount_def)
qed

theorem tensor_cell_magnitude_drops:
  "tensor_cell 0 0 0 (play_round 3 [0, 0]) = Inr (50176 / 50625)
   \<and> tensor_cell 0 0 0 (play_round 3 [0, 0, 180]) = Inr 0"
proof -
  let ?Z = "replicate (nat 3) (replicate StateCount (new_Move StateCount))"
  obtain e0 e1 e2 v1 v2 where e0: "MovePredictionEngine_init 3 = Inr e0"
    and r1: "record_move_and_get_predicted 0 e0 = Inr (new_Move StateCount, e1)"
    and r2: "record_move_and_get_predicted 0 e1 = Inr (new_Move StateCount, e2)"
    and wf2: "wf_engine e2"
    and v1: "get_move 0 = Inr v1" and v2: "get_move 0 = Inr v2"
    and h2: "history e2 = [v2, v1]" and w2: "weights e2 = update_pass [v1] v2 ?Z"
    using first_two_moves [of 3 0 0] by auto
  obtain v3 where v3: "get_move 180 = Inr v3" using get_move_ok [of 180] by auto
  have x1: "v1 ! 0 = 224 / 225" and x2: "v2 ! 0 = 224 / 225" and x3: "v3 ! 0 = - (224 / 225)"
    using get_move_0_180_state_0 v1 v2 v3 by simp_all
  have c2: "weights e2 ! 0 ! 0 ! 0 = 50176 / 50625"
    unfolding w2 by (subst update_pass_nth) (simp_all add: StateCount_def new_Move_def x1 x2)
  define e3 where "e3 = e2\<lparr>history := next_history e2 v3,
                            weights := update_pass (history e2) v3 (weights e2)\<rparr>"
  have r3: "record_move_and_get_predicted 180 e2 = Inr (predict_pass (history e2) (weights e2), e3)"
    unfolding e3_def by (rule record_move_step(1) [OF wf2 v3])
  have l2: "0 < length (weights e2)" by (simp add: w2 length_update_pass)
  have c3: "weights e3 ! 0 ! 0 ! 0 = 0"
    unfolding e3_def using update_pass_nth [OF l2, of 0 0 "history e2" v3] c2
    by (simp add: StateCount_def h2 x2 x3)
  show ?thesis
    by (simp add: play_round_def tensor_cell_def e0 r1 r2 r3 c2 c3)
qed

section \<open>The final score of a series\<close>

lemma score_step:
  assumes wf: "wf_engine eng" and sc: "0 < scoreScaler eng" and mid: "0 < ScoreScalerMiddle eng"
    and deg: "0 \<le> degree" "degree \<le> 360"
  shows "\<exists>predicted eng1 feedback pos neg.
           record_move_and_get_predicted degree eng = Inr (predicted, eng1)
           \<and> get_scoring_weight degree predicted eng1 = (Inr (feedback, pos, neg), eng1)
           \<and> wf_engine eng1 \<and> scoreScaler eng1 = scoreScaler eng
           \<and> ScoreScalerMiddle eng1 = ScoreScalerMiddle eng
           \<and> 0 \<le> pos \<and> 0 \<le> neg"
proof -
  obtain vector where v: "get_move degree = Inr vector"
    using get_move_ok [of degree] deg by auto
  define eng1 where "eng1 = eng\<lparr>history := next_history eng vector,
                                  weights := update_pass (history eng) vector (weights eng)\<rparr>"
  let ?p = "predict_pass (history eng) (weights eng)"
  have r: "record_move_and_get_predicted degree eng = Inr (?p, eng1)"
    unfolding eng1_def by (rule record_move_step(1) [OF wf v])
  have wf1: "wf_engine eng1" unfolding eng1_def by (rule record_move_step(2) [OF wf v])
  have s1: "scoreScaler eng1 = scoreScaler eng" "ScoreScalerMiddle eng1 = ScoreScalerMiddle eng"
    by (simp_all add: eng1_def)
  have "\<exists>feedback pos neg.
           get_scoring_weight degree ?p eng1 = (Inr (feedback, pos, neg), eng1)
           \<and> 0 \<le> pos \<and> 0 \<le> neg"
    by (rule get_scoring_weight_nonneg [OF deg length_predict_pass]) (use sc mid s1 in simp_all)
  then show ?thesis using r wf1 s1 by blast
qed

lemma score_loop_ok:
  assumes "wf_engine eng" "0 < scoreScaler eng" "0 < ScoreScalerMiddle eng"
    and "\<forall>a\<in>set degrees. 0 \<le> a \<and> a \<le> 360"
    and "0 \<le> pos_sum" "0 \<le> neg_sum"
  shows "\<exists>eng' pos_sum' neg_sum'.
           score_loop degrees (eng, pos_sum, neg_sum) = Inr (eng', pos_sum', neg_sum')
           \<and> 0 \<le> pos_sum' \<and> 0 \<le> neg_sum'"
  using assms
proof (induction degrees arbitrary: eng pos_sum neg_sum)
  case Nil
  then show ?case by simp
next
  case (Cons degree rest)
  from Cons.prems have deg: "0 \<le> degree" "degree \<le> 360" by simp_all
  obtain predicted eng1 feedback pos neg where
    r: "record_move_and_get_predicted degree eng = Inr (predicted, eng1)"
    and g: "get_scoring_weight degree predicted eng1 = (Inr (feedback, pos, neg), eng1)"
    and wf1: "wf_engine eng1" and s1: "scoreScaler eng1 = scoreScaler eng"
    and m1: "ScoreScalerMiddle eng1 = ScoreScalerMiddle eng"
    and pn: "0 \<le> pos" "0 \<le> neg"
    using score_step [OF Cons.prems(1-3) deg] by blast
  have "\<exists>eng' pos_sum' neg_sum'.
          score_loop rest (eng1, pos_sum + pos, neg_sum + neg) = Inr (eng', pos_sum', neg_sum')
          \<and> 0 \<le> pos_sum' \<and> 0 \<le> neg_sum'"
    by (rule Cons.IH) (use Cons.prems wf1 s1 m1 pn in simp_all)
  then show ?case by (simp add: r g)
qed

lemma final_score_range:
  assumes "0 \<le> pos_sum" "0 \<le> neg_sum"
  shows "(pos_sum = 0 \<and> neg_sum = 0 \<longrightarrow> final_score pos_sum neg_sum = Inl ZeroDivisionError)
       \<and> (\<not> (pos_sum = 0 \<and> neg_sum = 0) \<longrightarrow>
            (\<exists>v. final_score pos_sum neg_sum = Inr v \<and> 0 \<le> v \<and> v \<le> 200))"
proof (cases "pos_sum < neg_sum")
  case True
  then have n: "0 < neg_sum" using assms by simp
  define q where "q = pos_sum / neg_sum"
  have q: "0 \<le> q" "q \<le> 1" using assms n True by (simp_all add: q_def)
  have "final_score pos_sum neg_sum = Inr (q * 100)"
    using True n by (simp add: final_score_def float_div_def q_def)
  moreover have "0 \<le> q * 100" "q * 100 \<le> 200" using q by simp_all
  ultimately show ?thesis using n by auto
next
  case False
  show ?thesis
  proof (cases "pos_sum = 0")
    case True
    then have "neg_sum = 0" using False assms by simp
    then show ?thesis using True by (simp add: final_score_def float_div_def)
  next
    case nz: False
    then have p: "0 < pos_sum" using assms by simp
    define q where "q = neg_sum / pos_sum"
    have q: "0 \<le> q" "q \<le> 1" using assms p False by (simp_all add: q_def)
    have "final_score pos_sum neg_sum = Inr ((2 - q) * 100)"
      using False nz by (simp add: final_score_def float_div_def q_def)
    moreover have "0 \<le> (2 - q) * 100" "(2 - q) * 100 \<le> 200" using q by simp_all
    ultimately show ?thesis using nz by auto
  qed
qed

lemma two_move_series_fails:
  assumes "0 \<le> a1" "a1 \<le> 360" "0 \<le> a2" "a2 \<le> 360"
  shows "test_score_move_series [a1, a2] = Inl ZeroDivisionError"
proof -
  obtain e0 e1 e2 where e0: "MovePredictionEngine_init 2 = Inr e0"
    and r1: "record_move_and_get_predicted a1 e0 = Inr (new_Move StateCount, e1)"
    and r2: "record_move_and_get_predicted a2 e1 = Inr (new_Move StateCount, e2)"
    using first_two_moves [of 2 a1 a2] assms by auto
  have g: "get_scoring_weight a (new_Move StateCount) e = (Inr (0, 0, 0), e)" for a e
    by (rule get_scoring_weight_zero) (rule sum_abs_new_Move)
  have "score_loop [a1, a2] (e0, 0, 0) = Inr (e2, 0, 0)"
    by (simp add: r1 r2 g)
  then show ?thesis
    by (simp add: test_score_move_series_def e0 final_score_def float_div_def)
qed

lemma score_series_cases:
  assumes len: "2 \<le> length degrees" and rng: "\<forall>a\<in>set degrees. 0 \<le> a \<and> a \<le> 360"
  shows "\<exists>engine eng pos_sum neg_sum.
           MovePredictionEngine_init (int (length degrees)) = Inr engine
           \<and> score_loop degrees (engine, 0, 0) = Inr (eng, pos_sum, neg_sum)
           \<and> 0 \<le> pos_sum \<and> 0 \<le> neg_sum
           \<and> test_score_move_series degrees = final_score pos_sum neg_sum"
proof -
  obtain engine where e: "MovePredictionEngine_init (int (length degrees)) = Inr engine"
    and wf: "wf_engine engine" and sc: "0 < scoreScaler engine"
    and mid: "0 < ScoreScalerMiddle engine"
    using init_wf [of "int (length degrees)"] len by auto
  obtain eng pos_sum neg_sum where
    l: "score_loop degrees (engine, 0, 0) = Inr (eng, pos_sum, neg_sum)"
    and pn: "0 \<le> pos_sum" "0 \<le> neg_sum"
    using score_loop_ok [OF wf sc mid rng, of 0 0] by auto
  have "test_score_move_series degrees = final_score pos_sum neg_sum"
    by (simp add: test_score_move_series_def e l)
  then show ?thesis using e l pn by blast
qed

text \<open>
  For every sequence of angles in \<open>[0, 360]\<close> of length at least 2 the loop returns, its
  sums \<open>pos_sum\<close> and \<open>neg_sum\<close> are not negative, and the final formula fails exactly
  when both are zero; otherwise the score is in \<open>[0, 200]\<close>.
\<close>

lemma score_series_range_or_zero_division:
  assumes "2 \<le> length degrees" and "\<forall>a\<in>set degrees. 0 \<le> a \<and> a \<le> 360"
  shows "(\<exists>engine eng pos_sum neg_sum.
            MovePredictionEngine_init (int (length degrees)) = Inr engine
            \<and> score_loop degrees (engine, 0, 0) = Inr (eng, pos_sum, neg_sum)
            \<and> 0 \<le> pos_sum \<and> 0 \<le> neg_sum
            \<and> (pos_sum = 0 \<and> neg_sum = 0 \<longrightarrow>
                 test_score_move_series degrees = Inl ZeroDivisionError)
            \<and> (\<not> (pos_sum = 0 \<and> neg_sum = 0) \<longrightarrow>
                 (\<exists>v. test_score_move_series degrees = Inr v \<and> 0 \<le> v \<and> v \<le> 200)))
       \<and> (length degrees = 2 \<longrightarrow> test_score_move_series degrees = Inl ZeroDivisionError)"
proof
  obtain engine eng pos_sum neg_sum where
    e: "MovePredictionEngine_init (int (length degrees)) = Inr engine"
    and l: "score_loop degrees (engine, 0, 0) = Inr (eng, pos_sum, neg_sum)"
    and pn: "0 \<le> pos_sum" "0 \<le> neg_sum"
    and t: "test_score_move_series degrees = final_score pos_sum neg_sum"
    using score_series_cases [OF assms] by blast
  show "\<exists>engine eng pos_sum neg_sum.
            MovePredictionEngine_init (int (length degrees)) = Inr engine
            \<and> score_loop degrees (engine, 0, 0) = Inr (eng, pos_sum, neg_sum)
            \<and> 0 \<le> pos_sum \<and> 0 \<le> neg_sum
            \<and> (pos_sum = 0 \<and> neg_sum = 0 \<longrightarrow>
                 test_score_move_series degrees = Inl ZeroDivisionError)
            \<and> (\<not> (pos_sum = 0 \<and> neg_sum = 0) \<longrightarrow>
                 (\<exists>v. test_score_move_series degrees = Inr v \<and> 0 \<le> v \<and> v \<le> 200))"
    using e l pn final_score_range [OF pn] unfolding t by blast
next
  show "length degrees = 2 \<longrightarrow> test_score_move_series degrees = Inl ZeroDivisionError"
  proof
    assume "length degrees = 2"
    then obtain a1 a2 where d: "degrees = [a1, a2]"
      by (cases degrees; cases "tl degrees") auto
    then show "test_score_move_series degrees = Inl ZeroDivisionError"
      using two_move_series_fails [of a1 a2] assms(2) by simp
  qed
qed

text \<open>
  C1 (the code departs from its own description). The header of the source says of the
  final formula "When posSum == negSum, score = 100", and the code comments give the
  range as 0 to 200. The formula has no guard for \<open>pos_sum = neg_sum = 0\<close>, and the first
  two moves of every round contribute \<open>(0, 0, 0)\<close>: on the series \<open>[0, 90]\<close> the sums are
  both zero and \<open>test_score_move_series\<close> raises ZeroDivisionError instead of returning a
  score.
\<close>

theorem two_move_series_divides_by_zero:
  "test_score_move_series [0, 90] = Inl ZeroDivisionError
   \<and> final_score 0 0 = Inl ZeroDivisionError"
  using two_move_series_fails [of 0 90] by (simp add: final_score_def float_div_def)

end
